theory Spec2Isabelle
  imports Complex_Main "HOL-Library.Sublist"
begin

section \<open>Storage access: \<open>useStorageAccessFramework\<close>\<close>

text \<open>
  \<open>Platform.OS\<close> of React Native is one of a fixed set of strings and \<open>Platform.isTV\<close>
  a boolean. \<open>isSafAvailable\<close> is the capability check of the storage layer.
\<close>

datatype os = Android | Ios | Windows | Macos | Web

record platform =
  OS :: os
  isTV :: bool

definition isSafAvailable :: "platform \<Rightarrow> bool" where
  "isSafAvailable p =
     (if OS p \<noteq> Android then False
      else if isTV p then False
      else True)"

section \<open>Strings\<close>

text \<open>
  \<open>name.replace(/\.[^/.]+$/, "")\<close>: the regular expression is tried at each position from
  the left; it matches at a dot that is followed, up to the end of the string, by one or
  more characters none of which is a slash or a dot. The match is replaced by the empty
  string; a string with no match is returned as it is.
\<close>

definition notSlashDot :: "char \<Rightarrow> bool" where
  "notSlashDot c = (c \<noteq> CHR ''/'' \<and> c \<noteq> CHR ''.'')"

fun fileNameWithoutExtension :: "string \<Rightarrow> string" where
  "fileNameWithoutExtension [] = []"
| "fileNameWithoutExtension (c # cs) =
     (if c = CHR ''.'' \<and> cs \<noteq> [] \<and> list_all notSlashDot cs then []
      else c # fileNameWithoutExtension cs)"

text \<open>\<open>s.includes(t)\<close>: \<open>t\<close> occurs in \<open>s\<close> as a contiguous run of characters.\<close>

fun includes_str :: "string \<Rightarrow> string \<Rightarrow> bool" where
  "includes_str [] t = (t = [])"
| "includes_str (c # cs) t = (prefix t (c # cs) \<or> includes_str cs t)"

section \<open>The existence reconciler: \<open>useRomFileSystem\<close>\<close>

record RomFile =
  id_RomFile :: int
  rom_id :: int
  file_name :: string
  file_extension :: string
  file_path :: string
  file_size_bytes :: nat
  md5_hash :: "string option"
  crc_hash :: "string option"
  sha1_hash :: "string option"

record PlatformFolder =
  platformSlug :: string
  platformName :: string
  folderUri :: string
  folderName :: string

text \<open>
  The storage collaborators. Each call either rejects (\<open>Inl\<close>) or yields the names of the
  entries of the directory. \<open>safListFiles\<close> is \<open>SAF.listFiles\<close>, \<open>directoryList\<close> is
  \<open>new FileSystem.Directory(uri).list()\<close>, \<open>readDirectoryAsync\<close> is
  \<open>FileSystem.readDirectoryAsync\<close>; \<open>safUnlink\<close> and \<open>deleteAsync\<close> delete one path.
\<close>

datatype js_error = StorageError string | TypeError | PlatformFolderNotFound

record env =
  platform :: platform
  safListFiles :: "string \<Rightarrow> js_error + string list"
  directoryList :: "string \<Rightarrow> js_error + string list"
  readDirectoryAsync :: "string \<Rightarrow> js_error + string list"
  safUnlink :: "string \<Rightarrow> js_error + unit"
  deleteAsync :: "string \<Rightarrow> js_error + unit"

datatype storage_call =
    SafListFiles string
  | DirectoryList string
  | ReadDirectoryAsync string
  | SafUnlink string
  | DeleteAsync string

text \<open>
  The state of the hook: the two \<open>useState\<close> records \<open>fileChecks\<close> and \<open>checking\<close>
  (JavaScript objects keyed by number; the second is the field \<open>checkingFlags\<close>), and
  the trace of the storage calls issued so far.

  Every write is a queued functional update (\<open>setFileChecks((prev) => ...)\<close>) and acts
  on the latest state. Every read of \<open>fileChecks\<close> or \<open>checking\<close> inside a callback reads
  the value that the render which created the callback has captured. So a function that
  reads takes two states: \<open>render\<close>, the state as that render saw it, and the current
  state, which its writes update.
\<close>

record hook_state =
  fileChecks :: "int \<rightharpoonup> bool"
  checkingFlags :: "int \<rightharpoonup> bool"
  calls :: "storage_call list"

definition initial :: hook_state where
  "initial = \<lparr>fileChecks = Map.empty, checkingFlags = Map.empty, calls = []\<rparr>"

definition setFileChecks :: "int \<Rightarrow> bool \<Rightarrow> hook_state \<Rightarrow> hook_state" where
  "setFileChecks k b s = s\<lparr>fileChecks := (fileChecks s)(k \<mapsto> b)\<rparr>"

definition setChecking :: "int \<Rightarrow> bool \<Rightarrow> hook_state \<Rightarrow> hook_state" where
  "setChecking k b s = s\<lparr>checkingFlags := (checkingFlags s)(k \<mapsto> b)\<rparr>"

text \<open>
  The listing step of \<open>checkIfRomExists\<close>: the backend is chosen by \<open>isSafAvailable()\<close>,
  the call is recorded in the trace.
\<close>

definition listFolder :: "env \<Rightarrow> string \<Rightarrow> hook_state \<Rightarrow> (js_error + string list) \<times> hook_state" where
  "listFolder e uri s =
     (if isSafAvailable (platform e)
      then (safListFiles e uri, s\<lparr>calls := calls s @ [SafListFiles uri]\<rparr>)
      else (directoryList e uri, s\<lparr>calls := calls s @ [DirectoryList uri]\<rparr>))"

text \<open>
  \<open>checkIfRomExists(romFile, platformFolder)\<close>. A missing argument is \<open>None\<close>; an empty
  \<open>folderUri\<close> is falsy. Everything after the two guards runs inside \<open>try\<close>, and the
  \<open>catch\<close> branch stores \<open>false\<close> and returns it.
\<close>

definition checkIfRomExists ::
  "env \<Rightarrow> RomFile option \<Rightarrow> PlatformFolder option \<Rightarrow> hook_state \<Rightarrow> bool \<times> hook_state" where
  "checkIfRomExists e romFile platformFolder s =
     (case romFile of
        None \<Rightarrow> (False, s)
      | Some rf \<Rightarrow>
         (case platformFolder of
            None \<Rightarrow> (False, s)
          | Some pf \<Rightarrow>
             if folderUri pf = [] then (False, s)
             else
               (case listFolder e (folderUri pf) s of
                  (Inl err, s1) \<Rightarrow> (False, setFileChecks (rom_id rf) False s1)
                | (Inr fileList, s1) \<Rightarrow>
                    if list_ex (\<lambda>file. includes_str file (fileNameWithoutExtension (file_name rf))) fileList
                    then (True, setFileChecks (rom_id rf) True s1)
                    else (False, setFileChecks (rom_id rf) False s1))))"

text \<open>
  \<open>fileChecks[romFile.rom_id] || false\<close> and \<open>checking[romFile.rom_id] || false\<close>, read
  from the state the render shows.
\<close>

definition isRomDownloaded :: "hook_state \<Rightarrow> RomFile \<Rightarrow> bool" where
  "isRomDownloaded s rf = (case fileChecks s (rom_id rf) of None \<Rightarrow> False | Some b \<Rightarrow> b)"

definition isCheckingRom :: "hook_state \<Rightarrow> RomFile \<Rightarrow> bool" where
  "isCheckingRom s rf = (case checkingFlags s (rom_id rf) of None \<Rightarrow> False | Some b \<Rightarrow> b)"

text \<open>
  \<open>checkMultipleRoms\<close>: the filter keeps the files with no cache entry and no in-flight
  flag. With nothing to check it returns. With a missing folder the warning reads
  \<open>platformFolder.platformSlug\<close>, which throws on \<open>null\<close>; with an empty \<open>folderUri\<close> it
  returns. Otherwise every kept file is checked; the checks are started in list order and
  their cache writes are functional updates, applied here in that order. The filter
  reads the records captured by the render; the writes go to the current state.
\<close>

definition romsFilesToCheck :: "hook_state \<Rightarrow> RomFile list \<Rightarrow> RomFile list" where
  "romsFilesToCheck render romsFiles =
     filter (\<lambda>rf. fileChecks render (rom_id rf) = None \<and> \<not> isCheckingRom render rf) romsFiles"

definition checkMultipleRoms ::
  "env \<Rightarrow> hook_state \<Rightarrow> RomFile list \<Rightarrow> PlatformFolder option \<Rightarrow> hook_state
     \<Rightarrow> js_error + hook_state" where
  "checkMultipleRoms e render romsFiles platformFolder s =
     (if romsFilesToCheck render romsFiles = [] then Inr s
      else
        (case platformFolder of
           None \<Rightarrow> Inl TypeError
         | Some pf \<Rightarrow>
            if folderUri pf = [] then Inr s
            else Inr (fold (\<lambda>rf st. snd (checkIfRomExists e (Some rf) (Some pf) st))
                        (romsFilesToCheck render romsFiles) s)))"

text \<open>
  \<open>refreshRomCheck\<close>: \<open>fileChecks[romFile.rom_id] == true\<close> short-circuits. The test
  reads the record captured by the render; the check, when it runs, writes to the current
  state.
\<close>

definition refreshRomCheck ::
  "env \<Rightarrow> hook_state \<Rightarrow> RomFile \<Rightarrow> PlatformFolder option \<Rightarrow> hook_state
     \<Rightarrow> bool \<times> hook_state" where
  "refreshRomCheck e render rf platformFolder s =
     (if fileChecks render (rom_id rf) = Some True then (True, s)
      else checkIfRomExists e (Some rf) platformFolder s)"

text \<open>\<open>resetRomsCheck\<close>: both records get \<open>false\<close> for every given file.\<close>

definition resetRomsCheck :: "RomFile list \<Rightarrow> hook_state \<Rightarrow> hook_state" where
  "resetRomsCheck romsFiles s =
     fold (\<lambda>rf st. setChecking (rom_id rf) False (setFileChecks (rom_id rf) False st)) romsFiles s"


section \<open>Deleting a downloaded file: \<open>handleDeleteFile\<close> of the game details screen\<close>

text \<open>
  The handler that runs once the user has confirmed the deletion. \<open>getSelectedFile()\<close>
  and the result of \<open>searchPlatformFolder\<close> are arguments. The listing and the deletion
  branch on \<open>RNPlatform.OS === "android"\<close>. The entry deleted is the first one whose
  name without extension equals that of the selected file; \<open>if (romFile)\<close> skips a
  missing or empty name. A rejection anywhere ends in the error toast.
\<close>

datatype toast = NoFileToDelete | FileDeleted | CannotDeleteFile js_error | NoToast

definition listForDelete :: "env \<Rightarrow> string \<Rightarrow> hook_state \<Rightarrow> (js_error + string list) \<times> hook_state" where
  "listForDelete e uri s =
     (if OS (platform e) = Android
      then (safListFiles e uri, s\<lparr>calls := calls s @ [SafListFiles uri]\<rparr>)
      else (readDirectoryAsync e uri, s\<lparr>calls := calls s @ [ReadDirectoryAsync uri]\<rparr>))"

definition deletePath :: "env \<Rightarrow> string \<Rightarrow> hook_state \<Rightarrow> (js_error + unit) \<times> hook_state" where
  "deletePath e path s =
     (if OS (platform e) = Android
      then (safUnlink e path, s\<lparr>calls := calls s @ [SafUnlink path]\<rparr>)
      else (deleteAsync e path, s\<lparr>calls := calls s @ [DeleteAsync path]\<rparr>))"

definition handleDeleteFile ::
  "env \<Rightarrow> RomFile option \<Rightarrow> PlatformFolder option \<Rightarrow> hook_state \<Rightarrow> toast \<times> hook_state" where
  "handleDeleteFile e selectedFile platformFolder s =
     (case selectedFile of
        None \<Rightarrow> (NoFileToDelete, s)
      | Some sf \<Rightarrow>
         (case platformFolder of
            None \<Rightarrow> (CannotDeleteFile PlatformFolderNotFound, s)
          | Some pf \<Rightarrow>
             (case listForDelete e (folderUri pf) s of
                (Inl err, s1) \<Rightarrow> (CannotDeleteFile err, s1)
              | (Inr fileList, s1) \<Rightarrow>
                 (case find (\<lambda>file. fileNameWithoutExtension file
                                      = fileNameWithoutExtension (file_name sf)) fileList of
                    None \<Rightarrow> (NoToast, s1)
                  | Some romFile \<Rightarrow>
                     if romFile = [] then (NoToast, s1)
                     else
                       (case deletePath e (folderUri pf @ ''/'' @ romFile) s1 of
                          (Inl err, s2) \<Rightarrow> (CannotDeleteFile err, s2)
                        | (Inr u, s2) \<Rightarrow> (FileDeleted, resetRomsCheck [sf] s2))))))"

text \<open>Which backend a storage call belongs to.\<close>

datatype backend = SAF | PlainPath

fun backendOf :: "storage_call \<Rightarrow> backend" where
  "backendOf (SafListFiles u) = SAF"
| "backendOf (SafUnlink u) = SAF"
| "backendOf (DirectoryList u) = PlainPath"
| "backendOf (ReadDirectoryAsync u) = PlainPath"
| "backendOf (DeleteAsync u) = PlainPath"

text \<open>The backend the capability check selects.\<close>

definition selectedBackend :: "platform \<Rightarrow> backend" where
  "selectedBackend p = (if isSafAvailable p then SAF else PlainPath)"

section \<open>Settings: \<open>loadConcurrentDownloadsSetting\<close>\<close>

text \<open>
  \<open>parseInt(value, 10)\<close>: leading white space is skipped, one sign is read, then the
  longest run of decimal digits; with no digit the result is \<open>NaN\<close> (\<open>None\<close>). The
  value is the integer the digits denote (JavaScript rounds it to a double, which leaves
  every comparison with 1 and 5 as it is). The white space characters are those among the
  8-bit characters: tab, line feed, vertical tab, form feed, carriage return, space and
  no-break space.
\<close>

definition isWhiteSpace :: "char \<Rightarrow> bool" where
  "isWhiteSpace c = (of_char c \<in> {9, 10, 11, 12, 13, 32, 160 :: nat})"

definition isDigit :: "char \<Rightarrow> bool" where
  "isDigit c = (48 \<le> (of_char c :: nat) \<and> (of_char c :: nat) \<le> 57)"

definition digitValue :: "char \<Rightarrow> nat" where
  "digitValue c = of_char c - 48"

definition parseInt :: "string \<Rightarrow> int option" where
  "parseInt str =
     (let S = dropWhile isWhiteSpace str;
          sign = (if S \<noteq> [] \<and> hd S = CHR ''-'' then - 1 else 1);
          S' = (if S \<noteq> [] \<and> (hd S = CHR ''+'' \<or> hd S = CHR ''-'') then tl S else S);
          Z = takeWhile isDigit S'
      in if Z = [] then None
         else Some (sign * int (foldl (\<lambda>a c. 10 * a + digitValue c) 0 Z)))"

text \<open>
  The argument is the outcome of \<open>AsyncStorage.getItem('concurrentDownloads')\<close>: a
  rejection, \<open>null\<close> or a string. The result is the value given to
  \<open>setConcurrentDownloads\<close>. Every comparison with \<open>NaN\<close> is false.
\<close>

definition loadConcurrentDownloadsSetting :: "js_error + string option \<Rightarrow> int" where
  "loadConcurrentDownloadsSetting stored =
     (case stored of
        Inl err \<Rightarrow> 2
      | Inr None \<Rightarrow> 2
      | Inr (Some v) \<Rightarrow>
         (case parseInt v of
            None \<Rightarrow> 2
          | Some numValue \<Rightarrow> if numValue \<ge> 1 \<and> numValue \<le> 5 then numValue else 2))"

section \<open>The downloads screen: \<open>formatTime\<close>\<close>

text \<open>
  A JavaScript number is \<open>NaN\<close>, an infinity or a finite value; every finite double is a
  rational number, and \<open>-0\<close> equals \<open>0\<close>. \<open>%\<close> is the remainder of the division
  truncated towards zero, and is exact on doubles. The quotients by 3600 and by 60 are
  taken exactly.
\<close>

datatype jsnum = NaN | PosInfinity | NegInfinity | Finite rat

fun isFinite :: "jsnum \<Rightarrow> bool" where
  "isFinite (Finite r) = True"
| "isFinite x = False"

definition js_trunc :: "rat \<Rightarrow> int" where
  "js_trunc r = (if r < 0 then \<lceil>r\<rceil> else \<lfloor>r\<rfloor>)"

definition js_rem :: "rat \<Rightarrow> rat \<Rightarrow> rat" where
  "js_rem a b = a - of_int (js_trunc (a / b)) * b"

text \<open>The decimal digits of an integer, as a template literal prints it.\<close>

definition digitChar :: "nat \<Rightarrow> char" where
  "digitChar d = char_of (48 + d)"

function natToString :: "nat \<Rightarrow> string" where
  "natToString n = (if n < 10 then [digitChar n] else natToString (n div 10) @ [digitChar (n mod 10)])"
  by pat_completeness auto
termination
  by (relation "measure (\<lambda>n. n)") auto

declare natToString.simps [simp del]

definition intToString :: "int \<Rightarrow> string" where
  "intToString i = (if i < 0 then CHR ''-'' # natToString (nat (- i)) else natToString (nat i))"

text \<open>
  \<open>formatTime(seconds)\<close>. The guard \<open>seconds === 0 || !isFinite(seconds) || seconds > 86400\<close>
  is the first test of the first equation for a finite value; the last equation is the
  guard on \<open>NaN\<close> and the infinities, where \<open>isFinite\<close> is false.
\<close>

fun formatTime :: "jsnum \<Rightarrow> string" where
  "formatTime (Finite seconds) =
     (if seconds = 0 \<or> seconds > 86400 then ''--''
      else
        (let hours = \<lfloor>seconds / 3600\<rfloor>;
             minutes = \<lfloor>js_rem seconds 3600 / 60\<rfloor>;
             secs = \<lfloor>js_rem seconds 60\<rfloor>
         in if hours > 0 then intToString hours @ ''h '' @ intToString minutes @ ''m''
            else if minutes > 0 then intToString minutes @ ''m '' @ intToString secs @ ''s''
            else intToString secs @ ''s''))"
| "formatTime x = ''--''"

section \<open>The download queue manager\<close>

text \<open>
  Modelled from the spec: the download queue (\<open>contexts/DownloadContext\<close>, of which the
  sources hold only the callers) is missing. The status enumeration is the state machine
  of the specification; the ACTIVE statuses are DOWNLOADING, EXTRACTING and MOVING.
\<close>

datatype DownloadStatus =
  PENDING | DOWNLOADING | EXTRACTING | MOVING | PAUSED | COMPLETED | FAILED | CANCELLED

text \<open>
  Modelled from the spec: the download item of the missing queue, with its synthetic id,
  the id of the file variant fetched, its status, its progress fields and its error.
\<close>

record DownloadItem =
  itemId :: nat
  fileId :: int
  status :: DownloadStatus
  progress :: nat
  downloadedBytes :: nat
  totalBytes :: nat
  error :: "string option"

text \<open>
  Modelled from the spec: the state of the missing queue manager, the items in arrival
  order (oldest first), the configured cap and the next id to mint.
\<close>

record queue =
  items :: "DownloadItem list"
  maxConcurrentDownloads :: nat
  nextId :: nat

text \<open>Modelled from the spec: the two validation errors of the missing queue manager.\<close>

datatype queue_error = AlreadyQueuedError | InvalidTransitionError

text \<open>Modelled from the spec: the ACTIVE statuses of the missing queue manager.\<close>

fun isActive :: "DownloadStatus \<Rightarrow> bool" where
  "isActive DOWNLOADING = True"
| "isActive EXTRACTING = True"
| "isActive MOVING = True"
| "isActive st = False"

text \<open>Modelled from the spec: the active count that the missing scheduler compares with the cap.\<close>

definition activeCount :: "DownloadItem list \<Rightarrow> nat" where
  "activeCount xs = length (filter (\<lambda>i. isActive (status i)) xs)"

text \<open>Modelled from the spec: whether the missing queue holds a PENDING item.\<close>

definition hasPending :: "DownloadItem list \<Rightarrow> bool" where
  "hasPending xs = list_ex (\<lambda>i. status i = PENDING) xs"

text \<open>
  Modelled from the spec: the promotion step of the missing scheduler; the oldest PENDING
  item, the first in arrival order, becomes DOWNLOADING.
\<close>

fun promoteOldestPending :: "DownloadItem list \<Rightarrow> DownloadItem list" where
  "promoteOldestPending [] = []"
| "promoteOldestPending (i # xs) =
     (if status i = PENDING then i\<lparr>status := DOWNLOADING\<rparr> # xs
      else i # promoteOldestPending xs)"

text \<open>Modelled from the spec: the number of PENDING items of the missing queue.\<close>

definition pendingCount :: "DownloadItem list \<Rightarrow> nat" where
  "pendingCount xs = length (filter (\<lambda>i. status i = PENDING) xs)"

text \<open>
  Modelled from the spec: the scheduler tick of the missing queue manager; while the
  active count is below the cap and a PENDING item exists, the oldest one is promoted.
\<close>

function schedulerTick :: "nat \<Rightarrow> DownloadItem list \<Rightarrow> DownloadItem list" where
  "schedulerTick cap xs =
     (if activeCount xs < cap \<and> hasPending xs
      then schedulerTick cap (promoteOldestPending xs)
      else xs)"
  by pat_completeness auto
termination
proof (relation "measure (\<lambda>(cap, xs). pendingCount xs)")
  show "wf (measure (\<lambda>(cap, xs). pendingCount xs))"
    by simp
next
  fix cap :: nat and xs :: "DownloadItem list"
  assume "activeCount xs < cap \<and> hasPending xs"
  then have "hasPending xs"
    by simp
  then have "pendingCount (promoteOldestPending xs) < pendingCount xs"
    by (induction xs) (auto simp: hasPending_def pendingCount_def)
  then show "((cap, promoteOldestPending xs), (cap, xs)) \<in> measure (\<lambda>(cap, xs). pendingCount xs)"
    by simp
qed

declare schedulerTick.simps [simp del]

text \<open>Modelled from the spec: a tick of the missing scheduler on the whole queue state.\<close>

definition tick :: "queue \<Rightarrow> queue" where
  "tick q = q\<lparr>items := schedulerTick (maxConcurrentDownloads q) (items q)\<rparr>"

text \<open>Modelled from the spec: lookup of an item of the missing queue by its id.\<close>

definition findItem :: "nat \<Rightarrow> DownloadItem list \<Rightarrow> DownloadItem option" where
  "findItem k xs = find (\<lambda>i. itemId i = k) xs"

text \<open>
  Modelled from the spec: an update of the item with a given id in the missing queue, the
  item that \<open>findItem\<close> finds.
\<close>

fun updateItem :: "nat \<Rightarrow> (DownloadItem \<Rightarrow> DownloadItem) \<Rightarrow> DownloadItem list \<Rightarrow> DownloadItem list" where
  "updateItem k f [] = []"
| "updateItem k f (i # xs) = (if itemId i = k then f i # xs else i # updateItem k f xs)"

text \<open>
  Modelled from the spec: a transition of the missing queue manager that is valid only
  from the listed source statuses; from any other status, or for an unknown id, it is a
  no-op reported as an invalid transition. A scheduler tick follows the transition.
\<close>

definition transition ::
  "nat \<Rightarrow> DownloadStatus list \<Rightarrow> (DownloadItem \<Rightarrow> DownloadItem) \<Rightarrow> queue \<Rightarrow> queue_error + queue" where
  "transition k sources f q =
     (case findItem k (items q) of
        None \<Rightarrow> Inl InvalidTransitionError
      | Some i \<Rightarrow>
         if status i \<in> set sources
         then Inr (tick (q\<lparr>items := updateItem k f (items q)\<rparr>))
         else Inl InvalidTransitionError)"

text \<open>
  Modelled from the spec: enqueue of the missing queue manager; it fails when an item for
  the same file is PENDING or ACTIVE, else appends a PENDING item with a fresh id and
  lets the scheduler consider it.
\<close>

definition enqueue :: "int \<Rightarrow> queue \<Rightarrow> queue_error + queue" where
  "enqueue f q =
     (if list_ex (\<lambda>i. fileId i = f \<and> (status i = PENDING \<or> isActive (status i))) (items q)
      then Inl AlreadyQueuedError
      else Inr (tick (q\<lparr>items := items q @
                  [\<lparr>itemId = nextId q, fileId = f, status = PENDING, progress = 0,
                    downloadedBytes = 0, totalBytes = 0, error = None\<rparr>],
                nextId := Suc (nextId q)\<rparr>)))"

text \<open>Modelled from the spec: the reset of progress, bytes and error done by retry and pause.\<close>

definition resetProgress :: "DownloadItem \<Rightarrow> DownloadItem" where
  "resetProgress i = i\<lparr>progress := 0, downloadedBytes := 0, totalBytes := 0, error := None\<rparr>"

text \<open>
  Modelled from the spec: the commands of the missing queue manager, the events of its
  transfer workers and a change of the configured cap, as one vocabulary of steps.
\<close>

datatype command =
    Enqueue int
  | Pause nat
  | Resume nat
  | Cancel nat
  | RetryDownload nat
  | RemoveFromQueue nat
  | ClearCompleted
  | ClearFailed
  | TransferOk nat bool
  | ExtractionOk nat
  | PlacementOk nat
  | StepFailed nat string
  | SetMaxConcurrentDownloads nat

text \<open>
  Modelled from the spec: one step of the missing queue manager. The transitions are
  those of the state machine; removal cancels an active item by deleting it and frees its
  slot; clearing removes the items of the given statuses; a new cap in 1..5 is stored and
  takes effect on the next scheduler tick only, never aborting an active transfer.
\<close>

fun step :: "command \<Rightarrow> queue \<Rightarrow> queue_error + queue" where
  "step (Enqueue f) q = enqueue f q"
| "step (Pause k) q =
     transition k [DOWNLOADING] (\<lambda>i. i\<lparr>status := PAUSED, downloadedBytes := 0\<rparr>) q"
| "step (Resume k) q = transition k [PAUSED] (\<lambda>i. i\<lparr>status := PENDING\<rparr>) q"
| "step (Cancel k) q =
     transition k [PENDING, DOWNLOADING, PAUSED, EXTRACTING, MOVING] (\<lambda>i. i\<lparr>status := CANCELLED\<rparr>) q"
| "step (RetryDownload k) q =
     transition k [FAILED, CANCELLED] (\<lambda>i. (resetProgress i)\<lparr>status := PENDING\<rparr>) q"
| "step (RemoveFromQueue k) q =
     Inr (tick (q\<lparr>items := filter (\<lambda>i. itemId i \<noteq> k) (items q)\<rparr>))"
| "step ClearCompleted q =
     Inr (q\<lparr>items := filter (\<lambda>i. status i \<noteq> COMPLETED) (items q)\<rparr>)"
| "step ClearFailed q =
     Inr (q\<lparr>items := filter (\<lambda>i. status i \<noteq> FAILED \<and> status i \<noteq> CANCELLED) (items q)\<rparr>)"
| "step (TransferOk k extract) q =
     transition k [DOWNLOADING] (\<lambda>i. i\<lparr>status := (if extract then EXTRACTING else MOVING)\<rparr>) q"
| "step (ExtractionOk k) q = transition k [EXTRACTING] (\<lambda>i. i\<lparr>status := MOVING\<rparr>) q"
| "step (PlacementOk k) q = transition k [MOVING] (\<lambda>i. i\<lparr>status := COMPLETED\<rparr>) q"
| "step (StepFailed k msg) q =
     transition k [DOWNLOADING, EXTRACTING, MOVING] (\<lambda>i. i\<lparr>status := FAILED, error := Some msg\<rparr>) q"
| "step (SetMaxConcurrentDownloads c) q =
     (if 1 \<le> c \<and> c \<le> 5 then Inr (q\<lparr>maxConcurrentDownloads := c\<rparr>) else Inr q)"

text \<open>
  Modelled from the spec: the effect of one command on the missing queue manager; a
  command that fails with a validation error is a no-op and leaves the queue as it was.
\<close>

definition applyCommand :: "command \<Rightarrow> queue \<Rightarrow> queue" where
  "applyCommand c q = (case step c q of Inl err \<Rightarrow> q | Inr q' \<Rightarrow> q')"

text \<open>Modelled from the spec: a run of the missing queue manager, command after command.\<close>

definition run :: "command list \<Rightarrow> queue \<Rightarrow> queue" where
  "run cs q = fold applyCommand cs q"

text \<open>Modelled from the spec: the missing queue at start, empty, with the cap as configured.\<close>

definition emptyQueue :: "nat \<Rightarrow> queue" where
  "emptyQueue cap = \<lparr>items = [], maxConcurrentDownloads = cap, nextId = 0\<rparr>"

text \<open>
  Modelled from the spec: the largest cap in force at any moment of a run of the missing
  queue manager that starts with the cap \<open>cap\<close>.
\<close>

fun peakCap :: "nat \<Rightarrow> command list \<Rightarrow> nat" where
  "peakCap cap [] = cap"
| "peakCap cap (SetMaxConcurrentDownloads c # cs) =
     (if 1 \<le> c \<and> c \<le> 5 then max cap (peakCap c cs) else peakCap cap cs)"
| "peakCap cap (x # cs) = peakCap cap cs"

text \<open>Modelled from the spec: whether a step of the missing queue manager is a change of the cap.\<close>

fun isCapChange :: "command \<Rightarrow> bool" where
  "isCapChange (SetMaxConcurrentDownloads c) = True"
| "isCapChange x = False"

text \<open>
  Modelled from the spec: whether a step of the missing queue manager sets the cap below
  the number of transfers that are active at that moment.
\<close>

fun lowersBelowActive :: "command \<Rightarrow> queue \<Rightarrow> bool" where
  "lowersBelowActive (SetMaxConcurrentDownloads c) q =
     (1 \<le> c \<and> c \<le> 5 \<and> c < activeCount (items q))"
| "lowersBelowActive x q = False"

text \<open>
  Modelled from the spec: a run of the missing queue manager in which no step sets the
  cap below the number of transfers active at that moment.
\<close>

fun neverLoweredBelowActive :: "command list \<Rightarrow> queue \<Rightarrow> bool" where
  "neverLoweredBelowActive [] q = True"
| "neverLoweredBelowActive (c # cs) q =
     (\<not> lowersBelowActive c q \<and> neverLoweredBelowActive cs (applyCommand c q))"


section \<open>Runs of the hook and sample data\<close>

text \<open>
  The calls a screen can make on the hook. Each call carries the storage it meets, since
  directories change between calls. A rejected \<open>checkMultipleRoms\<close> leaves the state as
  it was. The calls issued from one render all read the state that this render shows,
  and their writes are applied in order; a run is a sequence of renders, each showing the
  state that the writes before it have produced.
\<close>

datatype hook_call =
    CheckIfRomExists env "RomFile option" "PlatformFolder option"
  | RefreshRomCheck env RomFile "PlatformFolder option"
  | CheckMultipleRoms env "RomFile list" "PlatformFolder option"
  | ResetRomsCheck "RomFile list"

fun callHook :: "hook_state \<Rightarrow> hook_call \<Rightarrow> hook_state \<Rightarrow> hook_state" where
  "callHook render (CheckIfRomExists e rf pf) s = snd (checkIfRomExists e rf pf s)"
| "callHook render (RefreshRomCheck e rf pf) s = snd (refreshRomCheck e render rf pf s)"
| "callHook render (CheckMultipleRoms e rfs pf) s =
     (case checkMultipleRoms e render rfs pf s of Inl err \<Rightarrow> s | Inr s' \<Rightarrow> s')"
| "callHook render (ResetRomsCheck rfs) s = resetRomsCheck rfs s"

definition runRender :: "hook_call list \<Rightarrow> hook_state \<Rightarrow> hook_state" where
  "runRender cs s = fold (callHook s) cs s"

definition runHook :: "hook_call list list \<Rightarrow> hook_state \<Rightarrow> hook_state" where
  "runHook renders s = fold runRender renders s"

text \<open>Sample platforms, storage, files and folder for concrete evaluations.\<close>

definition androidPhone :: platform where
  "androidPhone = \<lparr>OS = Android, isTV = False\<rparr>"

definition androidTV :: platform where
  "androidTV = \<lparr>OS = Android, isTV = True\<rparr>"

definition sampleEnv :: "platform \<Rightarrow> js_error + string list \<Rightarrow> env" where
  "sampleEnv p listing =
     \<lparr>platform = p,
      safListFiles = (\<lambda>uri. listing),
      directoryList = (\<lambda>uri. listing),
      readDirectoryAsync = (\<lambda>uri. listing),
      safUnlink = (\<lambda>path. Inr ()),
      deleteAsync = (\<lambda>path. Inr ())\<rparr>"

definition sampleFile :: "int \<Rightarrow> int \<Rightarrow> string \<Rightarrow> RomFile" where
  "sampleFile k r name =
     \<lparr>id_RomFile = k, rom_id = r, file_name = name, file_extension = ''zip'',
      file_path = ''roms/snes'', file_size_bytes = 1024,
      md5_hash = None, crc_hash = None, sha1_hash = None\<rparr>"

definition sampleFolder :: PlatformFolder where
  "sampleFolder =
     \<lparr>platformSlug = ''snes'', platformName = ''SNES'',
      folderUri = ''content://roms/snes'', folderName = ''snes''\<rparr>"

definition sonicFile :: RomFile where
  "sonicFile = sampleFile 1 7 ''Sonic.zip''"

definition storageWithSonic :: env where
  "storageWithSonic = sampleEnv androidPhone (Inr [''Sonic.md''])"

definition storageEmpty :: env where
  "storageEmpty = sampleEnv androidPhone (Inr [])"

text \<open>The state shown by the render that follows a check which has found the sample file.\<close>

definition renderAfterCheck :: hook_state where
  "renderAfterCheck =
     runHook [[CheckIfRomExists storageWithSonic (Some sonicFile) (Some sampleFolder)]] initial"

section \<open>Properties of the existence reconciler\<close>

lemma includes_str_sublist: "includes_str s t \<longleftrightarrow> sublist t s"
  by (induction s) (auto simp: sublist_Cons_right)

lemma fileNameWithoutExtension_ext:
  "ext \<noteq> [] \<Longrightarrow> list_all notSlashDot ext \<Longrightarrow>
   fileNameWithoutExtension (stem @ CHR ''.'' # ext) = stem"
  by (induction stem) (auto simp: notSlashDot_def)

lemma fileNameWithoutExtension_unchanged:
  "\<not> (\<exists>stem ext. name = stem @ CHR ''.'' # ext \<and> ext \<noteq> [] \<and> list_all notSlashDot ext) \<Longrightarrow>
   fileNameWithoutExtension name = name"
proof (induction name)
  case Nil
  then show ?case by simp
next
  case (Cons c cs)
  have nohead: "\<not> (c = CHR ''.'' \<and> cs \<noteq> [] \<and> list_all notSlashDot cs)"
    using Cons.prems by (metis append_Nil)
  have "\<not> (\<exists>stem ext. cs = stem @ CHR ''.'' # ext \<and> ext \<noteq> [] \<and> list_all notSlashDot ext)"
    using Cons.prems by (metis append_Cons)
  then have "fileNameWithoutExtension cs = cs"
    by (rule Cons.IH)
  with nohead show ?case by auto
qed


lemma checkIfRomExists_fileChecks_other:
  "k \<noteq> rom_id f \<Longrightarrow> fileChecks (snd (checkIfRomExists e (Some f) pf s)) k = fileChecks s k"
  by (auto simp: checkIfRomExists_def listFolder_def setFileChecks_def
           split: option.splits sum.splits prod.splits if_splits)

text \<open>
  C9. \<open>checkIfRomExists\<close> always returns a boolean (the model has no error result: the
  guards cannot throw and the rest runs under \<open>try\<close>). It returns false, leaving the
  state alone, when the file is missing, when the folder is missing and when the folder's
  URI is empty; when the listing is rejected it returns false and stores false in the
  cache under the file's \<open>rom_id\<close>.
\<close>

theorem checkIfRomExists_false_cases:
  "checkIfRomExists e None pf s = (False, s) \<and>
   checkIfRomExists e rf None s = (False, s) \<and>
   (folderUri f = [] \<longrightarrow> checkIfRomExists e rf (Some f) s = (False, s)) \<and>
   (folderUri f \<noteq> [] \<and> fst (listFolder e (folderUri f) s) = Inl err \<longrightarrow>
      fst (checkIfRomExists e (Some r) (Some f) s) = False \<and>
      fileChecks (snd (checkIfRomExists e (Some r) (Some f) s)) (rom_id r) = Some False)"
  by (auto simp: checkIfRomExists_def setFileChecks_def split: option.splits sum.splits prod.splits)

theorem checkIfRomExists_false_cases_witness:
  "folderUri sampleFolder \<noteq> [] \<and>
   fst (listFolder (sampleEnv androidPhone (Inl (StorageError ''denied''))) (folderUri sampleFolder) initial)
     = Inl (StorageError ''denied'') \<and>
   fst (checkIfRomExists (sampleEnv androidPhone (Inl (StorageError ''denied'')))
          (Some (sampleFile 1 7 ''Sonic.zip'')) (Some sampleFolder) initial) = False \<and>
   fileChecks (snd (checkIfRomExists (sampleEnv androidPhone (Inl (StorageError ''denied'')))
          (Some (sampleFile 1 7 ''Sonic.zip'')) (Some sampleFolder) initial)) 7 = Some False"
  using checkIfRomExists_false_cases [of "sampleEnv androidPhone (Inl (StorageError ''denied''))"
      None initial None sampleFolder "StorageError ''denied''" "sampleFile 1 7 ''Sonic.zip''"]
  by (simp add: sampleFolder_def sampleEnv_def sampleFile_def listFolder_def isSafAvailable_def
        androidPhone_def)

text \<open>
  A check of one file writes the entry of its \<open>rom_id\<close> only: the entries of the files
  of other ROMs, and what \<open>isRomDownloaded\<close> answers for them, stay as they were.
\<close>

lemma checkIfRomExists_other_rom_unchanged:
  "rom_id g \<noteq> rom_id f \<Longrightarrow>
     fileChecks (snd (checkIfRomExists e (Some f) pf s)) (rom_id g) = fileChecks s (rom_id g) \<and>
     isRomDownloaded (snd (checkIfRomExists e (Some f) pf s)) g = isRomDownloaded s g"
  by (simp add: isRomDownloaded_def checkIfRomExists_fileChecks_other)

text \<open>
  C3. The cache is to hold one entry per file variant, so that a check of one variant
  leaves the answer for another variant alone. The code keys the cache by \<open>rom_id\<close>, and
  this fails for two variants of one ROM, which have distinct ids and the same
  \<open>rom_id\<close>: before any check the second variant is reported absent; a check that
  finds the first variant makes \<open>isRomDownloaded\<close> report the second one present; and a
  following check of the second variant, which is not in the folder, makes
  \<open>isRomDownloaded\<close> report the first one absent.
\<close>

theorem checkIfRomExists_variants_share_entry:
  "id_RomFile (sampleFile 1 7 ''Sonic (USA).zip'') \<noteq> id_RomFile (sampleFile 2 7 ''Sonic (Japan).zip'') \<and>
   isRomDownloaded initial (sampleFile 2 7 ''Sonic (Japan).zip'') = False \<and>
   isRomDownloaded
     (snd (checkIfRomExists (sampleEnv androidPhone (Inr [''Sonic (USA).md'']))
            (Some (sampleFile 1 7 ''Sonic (USA).zip'')) (Some sampleFolder) initial))
     (sampleFile 2 7 ''Sonic (Japan).zip'') = True \<and>
   isRomDownloaded
     (snd (checkIfRomExists (sampleEnv androidPhone (Inr [''Sonic (USA).md'']))
            (Some (sampleFile 2 7 ''Sonic (Japan).zip'')) (Some sampleFolder)
            (snd (checkIfRomExists (sampleEnv androidPhone (Inr [''Sonic (USA).md'']))
                    (Some (sampleFile 1 7 ''Sonic (USA).zip'')) (Some sampleFolder) initial))))
     (sampleFile 1 7 ''Sonic (USA).zip'') = False"
  by (simp add: sampleFolder_def sampleEnv_def sampleFile_def listFolder_def isSafAvailable_def
        androidPhone_def checkIfRomExists_def initial_def isRomDownloaded_def setFileChecks_def
        notSlashDot_def)












text \<open>
  C5, as amended. \<open>checkIfRomExists\<close> returns true exactly when the file and the folder
  are given, the folder's URI is not empty, the listing succeeds and some entry's full
  name, extension included, contains the file's base name (\<open>file_name\<close> with its final
  extension removed) as a contiguous substring; otherwise it returns false.
\<close>

theorem checkIfRomExists_true_iff_entry_contains_base:
  "fst (checkIfRomExists e romFile platformFolder s) \<longleftrightarrow>
     (\<exists>rf pf fileList.
        romFile = Some rf \<and> platformFolder = Some pf \<and> folderUri pf \<noteq> [] \<and>
        fst (listFolder e (folderUri pf) s) = Inr fileList \<and>
        (\<exists>file ps ss. file \<in> set fileList \<and>
           file = ps @ fileNameWithoutExtension (file_name rf) @ ss))"
  by (auto simp: checkIfRomExists_def includes_str_sublist sublist_def list_ex_iff
           split: option.splits sum.splits prod.splits)

theorem checkIfRomExists_true_iff_entry_contains_base_witness:
  "fst (checkIfRomExists (sampleEnv androidTV (Inr [''readme.txt'', ''Sonic.md'']))
          (Some (sampleFile 1 7 ''Sonic.zip'')) (Some sampleFolder) initial) = True"
proof -
  have "fst (checkIfRomExists (sampleEnv androidTV (Inr [''readme.txt'', ''Sonic.md'']))
          (Some (sampleFile 1 7 ''Sonic.zip'')) (Some sampleFolder) initial)"
    apply (rule iffD2 [OF checkIfRomExists_true_iff_entry_contains_base])
    apply (rule exI [of _ "sampleFile 1 7 ''Sonic.zip''"])
    apply (rule exI [of _ sampleFolder])
    apply (rule exI [of _ "[''readme.txt'', ''Sonic.md'']"])
    apply (simp add: sampleEnv_def sampleFile_def sampleFolder_def listFolder_def notSlashDot_def)
    apply (rule exI [of _ "''Sonic.md''"])
    apply simp
    apply (rule exI [of _ "[]"])
    apply simp
    done
  then show ?thesis by simp
qed

text \<open>
  The extension of an entry is not ignored. The entry \<open>Super Mario Bros. 3\<close> makes the
  check of \<open>Super Mario Bros. 3.nes\<close> succeed, although the entry's name without its
  extension, \<open>Super Mario Bros\<close>, does not contain the base name.
\<close>

theorem checkIfRomExists_entry_extension_not_ignored:
  "fst (checkIfRomExists (sampleEnv androidPhone (Inr [''Super Mario Bros. 3'']))
          (Some (sampleFile 1 7 ''Super Mario Bros. 3.nes'')) (Some sampleFolder) initial) = True \<and>
   includes_str (fileNameWithoutExtension ''Super Mario Bros. 3'')
     (fileNameWithoutExtension (file_name (sampleFile 1 7 ''Super Mario Bros. 3.nes''))) = False"
  by (simp add: sampleFolder_def sampleEnv_def sampleFile_def listFolder_def isSafAvailable_def
        androidPhone_def checkIfRomExists_def initial_def setFileChecks_def notSlashDot_def)

text \<open>
  What \<open>refreshRomCheck\<close> does, in terms of the record its render has captured: with a
  true entry there it returns true and leaves the current state alone, otherwise it does
  what \<open>checkIfRomExists\<close> does. When the render shows the current state, a file reported
  present is still reported present afterwards.
\<close>

lemma refreshRomCheck_by_render:
  "(fileChecks render (rom_id rf) = Some True \<longrightarrow> refreshRomCheck e render rf pf s = (True, s)) \<and>
   (fileChecks render (rom_id rf) \<noteq> Some True \<longrightarrow>
      refreshRomCheck e render rf pf s = checkIfRomExists e (Some rf) pf s)"
  by (simp add: refreshRomCheck_def)

lemma refreshRomCheck_fresh_render_keeps_present:
  "isRomDownloaded s g \<Longrightarrow> isRomDownloaded (snd (refreshRomCheck e s rf pf s)) g"
proof (cases "rom_id g = rom_id rf")
  case True
  assume "isRomDownloaded s g"
  with True have "fileChecks s (rom_id rf) = Some True"
    by (auto simp: isRomDownloaded_def split: option.splits)
  with \<open>isRomDownloaded s g\<close> show ?thesis
    by (simp add: refreshRomCheck_def)
next
  case False
  assume "isRomDownloaded s g"
  with False show ?thesis
    by (simp add: refreshRomCheck_def isRomDownloaded_def checkIfRomExists_fileChecks_other)
qed

text \<open>
  C2. \<open>refreshRomCheck\<close> is to short-circuit when the cache entry is true, to perform
  the full check when the entry is absent or false, and so to keep a confirmed file
  reported present until a reset. The code tests the record that the calling render
  has captured, not the cache as the queued writes have left it, and fails on both
  counts. First, from a render that shows the file present, \<open>resetRomsCheck\<close> followed
  by \<open>refreshRomCheck\<close> (the sequence of \<open>loadRecentRoms\<close>): the entry is false after the
  reset and the file is no longer in the folder, so the full check would return false,
  yet \<open>refreshRomCheck\<close> returns true and lists nothing. Second, two calls of
  \<open>refreshRomCheck\<close> for one file from one render of the initial state: the first finds
  the file and stores true, the second does not short-circuit, lists again and stores
  false, with no reset in between.
\<close>

theorem refreshRomCheck_reads_stale_cache:
  "fileChecks renderAfterCheck (rom_id sonicFile) = Some True \<and>
   fileChecks (resetRomsCheck [sonicFile] renderAfterCheck) (rom_id sonicFile) = Some False \<and>
   fst (checkIfRomExists storageEmpty (Some sonicFile) (Some sampleFolder)
          (resetRomsCheck [sonicFile] renderAfterCheck)) = False \<and>
   refreshRomCheck storageEmpty renderAfterCheck sonicFile (Some sampleFolder)
       (resetRomsCheck [sonicFile] renderAfterCheck)
     = (True, resetRomsCheck [sonicFile] renderAfterCheck) \<and>
   isRomDownloaded
     (runRender [RefreshRomCheck storageWithSonic sonicFile (Some sampleFolder)] initial)
     sonicFile = True \<and>
   isRomDownloaded
     (runRender [RefreshRomCheck storageWithSonic sonicFile (Some sampleFolder),
                 RefreshRomCheck storageEmpty sonicFile (Some sampleFolder)] initial)
     sonicFile = False \<and>
   calls (runRender [RefreshRomCheck storageWithSonic sonicFile (Some sampleFolder),
                     RefreshRomCheck storageEmpty sonicFile (Some sampleFolder)] initial)
     = [SafListFiles ''content://roms/snes'', SafListFiles ''content://roms/snes'']"
  by (simp add: renderAfterCheck_def sonicFile_def storageEmpty_def storageWithSonic_def
        runHook_def runRender_def refreshRomCheck_def resetRomsCheck_def setChecking_def
        sampleFolder_def sampleEnv_def sampleFile_def listFolder_def isSafAvailable_def
        androidPhone_def checkIfRomExists_def initial_def isRomDownloaded_def setFileChecks_def
        notSlashDot_def)




section \<open>Properties of the backend selection\<close>

lemma isSafAvailable_iff: "isSafAvailable p \<longleftrightarrow> OS p = Android \<and> \<not> isTV p"
  by (simp add: isSafAvailable_def)

lemma listFolder_backend:
  "map backendOf (calls (snd (listFolder e uri s)))
     = map backendOf (calls s) @ [selectedBackend (platform e)]"
  by (simp add: listFolder_def selectedBackend_def)

lemma listForDelete_backend:
  "map backendOf (calls (snd (listForDelete e uri s)))
     = map backendOf (calls s) @ [if OS (platform e) = Android then SAF else PlainPath]"
  by (simp add: listForDelete_def)

text \<open>
  C6. The capability check \<open>isSafAvailable\<close> is true exactly on Android that is not a TV,
  and \<open>checkIfRomExists\<close> lists through the backend it selects. \<open>handleDeleteFile\<close> does
  not: it branches on the operating system alone. On an Android TV, where the capability
  check selects the plain-path backend and \<open>checkIfRomExists\<close> lists with
  \<open>Directory.list\<close>, \<open>handleDeleteFile\<close> lists with \<open>SAF.listFiles\<close> and deletes with
  \<open>SAF.unlink\<close>.
\<close>

theorem handleDeleteFile_android_tv_uses_saf:
  "isSafAvailable androidTV = False \<and>
   selectedBackend androidTV = PlainPath \<and>
   calls (snd (checkIfRomExists (sampleEnv androidTV (Inr [''Sonic.md'']))
                 (Some (sampleFile 1 7 ''Sonic.zip'')) (Some sampleFolder) initial))
     = [DirectoryList ''content://roms/snes''] \<and>
   calls (snd (handleDeleteFile (sampleEnv androidTV (Inr [''Sonic.md'']))
                 (Some (sampleFile 1 7 ''Sonic.zip'')) (Some sampleFolder) initial))
     = [SafListFiles ''content://roms/snes'', SafUnlink ''content://roms/snes/Sonic.md'']"
  by (simp add: isSafAvailable_def androidTV_def selectedBackend_def checkIfRomExists_def
        handleDeleteFile_def listFolder_def listForDelete_def deletePath_def sampleEnv_def
        sampleFile_def sampleFolder_def initial_def setFileChecks_def notSlashDot_def
        resetRomsCheck_def setChecking_def)

section \<open>Properties of the settings loader\<close>

lemma parseInt_3: "parseInt ''3'' = Some 3"
  by code_simp

lemma parseInt_9: "parseInt ''9'' = Some 9"
  by code_simp

lemma parseInt_abc: "parseInt ''abc'' = None"
  by code_simp

lemma parseInt_4px: "parseInt '' 4px'' = Some 4"
  by code_simp

lemma loadConcurrentDownloadsSetting_after_save:
  "1 \<le> n \<Longrightarrow> n \<le> 5 \<Longrightarrow> loadConcurrentDownloadsSetting (Inr (Some (intToString n))) = n"
proof -
  assume "1 \<le> n" and "n \<le> 5"
  then consider "n = 1" | "n = 2" | "n = 3" | "n = 4" | "n = 5"
    by linarith
  then show ?thesis
  proof cases
    case 1
    have "loadConcurrentDownloadsSetting (Inr (Some (intToString 1))) = 1" by code_simp
    with 1 show ?thesis by simp
  next
    case 2
    have "loadConcurrentDownloadsSetting (Inr (Some (intToString 2))) = 2" by code_simp
    with 2 show ?thesis by simp
  next
    case 3
    have "loadConcurrentDownloadsSetting (Inr (Some (intToString 3))) = 3" by code_simp
    with 3 show ?thesis by simp
  next
    case 4
    have "loadConcurrentDownloadsSetting (Inr (Some (intToString 4))) = 4" by code_simp
    with 4 show ?thesis by simp
  next
    case 5
    have "loadConcurrentDownloadsSetting (Inr (Some (intToString 5))) = 5" by code_simp
    with 5 show ?thesis by simp
  qed
qed

text \<open>
  C7. Whatever the store holds, the loaded \<open>maxConcurrentDownloads\<close> is an integer from
  1 to 5. It equals the stored value when that value parses to an integer from 1 to 5; it
  is the default 2 when the value parses to an integer outside that range, when it does
  not parse, when it is absent and when loading fails.
\<close>

theorem loadConcurrentDownloadsSetting_in_range:
  "1 \<le> loadConcurrentDownloadsSetting stored \<and>
   loadConcurrentDownloadsSetting stored \<le> 5 \<and>
   (parseInt v = Some n \<and> 1 \<le> n \<and> n \<le> 5 \<longrightarrow> loadConcurrentDownloadsSetting (Inr (Some v)) = n) \<and>
   (parseInt v = Some n \<and> (n < 1 \<or> 5 < n) \<longrightarrow> loadConcurrentDownloadsSetting (Inr (Some v)) = 2) \<and>
   (parseInt v = None \<longrightarrow> loadConcurrentDownloadsSetting (Inr (Some v)) = 2) \<and>
   loadConcurrentDownloadsSetting (Inr None) = 2 \<and>
   loadConcurrentDownloadsSetting (Inl err) = 2"
  by (auto simp: loadConcurrentDownloadsSetting_def split: sum.splits option.splits)

theorem loadConcurrentDownloadsSetting_in_range_witness:
  "parseInt ''3'' = Some 3 \<and> loadConcurrentDownloadsSetting (Inr (Some ''3'')) = 3 \<and>
   parseInt ''9'' = Some 9 \<and> loadConcurrentDownloadsSetting (Inr (Some ''9'')) = 2 \<and>
   parseInt ''abc'' = None \<and> loadConcurrentDownloadsSetting (Inr (Some ''abc'')) = 2"
  using loadConcurrentDownloadsSetting_in_range [of "Inr None" "''3''" 3]
    loadConcurrentDownloadsSetting_in_range [of "Inr None" "''9''" 9]
    loadConcurrentDownloadsSetting_in_range [of "Inr None" "''abc''" 0]
    parseInt_3 parseInt_9 parseInt_abc
  by simp

section \<open>Properties of \<open>formatTime\<close>\<close>

lemma floor_div_60_60: "\<lfloor>(r :: rat) / 60\<rfloor> div 60 = \<lfloor>r / 3600\<rfloor>"
proof -
  define m where "m = \<lfloor>r / 60\<rfloor>"
  have "of_int m \<le> r / 60 \<and> r / 60 < of_int (m + 1)"
    unfolding m_def by (rule floor_correct)
  then have m1: "of_int m \<le> r / 60" and m2: "r / 60 < of_int m + 1"
    by simp_all
  have lo: "60 * (m div 60) \<le> m" and hi: "m + 1 \<le> 60 * (m div 60) + 60"
    by presburger+
  have lo': "(of_int (60 * (m div 60)) :: rat) \<le> of_int m"
    using lo by (simp only: of_int_le_iff)
  have hi': "(of_int (m + 1) :: rat) \<le> of_int (60 * (m div 60) + 60)"
    using hi by (simp only: of_int_le_iff)
  have a: "of_int (m div 60) \<le> r / 3600"
    using m1 lo' by simp
  have b: "r / 3600 < of_int (m div 60) + 1"
    using m2 hi' by simp
  have "\<lfloor>r / 3600\<rfloor> = m div 60"
    using a b by (rule floor_unique)
  then show ?thesis by (simp add: m_def)
qed

lemma js_rem_nonneg: "0 \<le> a \<Longrightarrow> 0 < b \<Longrightarrow> js_rem a b = a - of_int \<lfloor>a / b\<rfloor> * b"
proof -
  assume "0 \<le> a" and "0 < b"
  then have "\<not> a / b < 0"
    by (simp add: not_less)
  then show ?thesis
    by (simp add: js_rem_def js_trunc_def)
qed

lemma minutes_eq: "0 \<le> (r::rat) \<Longrightarrow> \<lfloor>js_rem r 3600 / 60\<rfloor> = \<lfloor>r / 60\<rfloor> mod 60"
proof -
  assume r: "0 \<le> r"
  have "js_rem r 3600 / 60 = r / 60 - of_int (60 * \<lfloor>r / 3600\<rfloor>)"
    using r by (simp add: js_rem_nonneg diff_divide_distrib)
  then have "\<lfloor>js_rem r 3600 / 60\<rfloor> = \<lfloor>r / 60\<rfloor> - 60 * \<lfloor>r / 3600\<rfloor>"
    by (simp only: floor_diff_of_int)
  also have "\<dots> = \<lfloor>r / 60\<rfloor> - 60 * (\<lfloor>r / 60\<rfloor> div 60)"
    by (simp only: floor_div_60_60)
  also have "\<dots> = \<lfloor>r / 60\<rfloor> mod 60"
    by (simp add: minus_mult_div_eq_mod)
  finally show ?thesis .
qed

lemma floor_div_1_60: "\<lfloor>(r :: rat)\<rfloor> div 60 = \<lfloor>r / 60\<rfloor>"
proof -
  define m where "m = \<lfloor>r\<rfloor>"
  have "of_int m \<le> r \<and> r < of_int (m + 1)"
    unfolding m_def by (rule floor_correct)
  then have m1: "of_int m \<le> r" and m2: "r < of_int m + 1"
    by simp_all
  have lo: "60 * (m div 60) \<le> m" and hi: "m + 1 \<le> 60 * (m div 60) + 60"
    by presburger+
  have lo': "(of_int (60 * (m div 60)) :: rat) \<le> of_int m"
    using lo by (simp only: of_int_le_iff)
  have hi': "(of_int (m + 1) :: rat) \<le> of_int (60 * (m div 60) + 60)"
    using hi by (simp only: of_int_le_iff)
  have a: "of_int (m div 60) \<le> r / 60"
    using m1 lo' by simp
  have b: "r / 60 < of_int (m div 60) + 1"
    using m2 hi' by simp
  have "\<lfloor>r / 60\<rfloor> = m div 60"
    using a b by (rule floor_unique)
  then show ?thesis by (simp add: m_def)
qed

lemma secs_eq: "0 \<le> (r::rat) \<Longrightarrow> \<lfloor>js_rem r 60\<rfloor> = \<lfloor>r\<rfloor> mod 60"
proof -
  assume r: "0 \<le> r"
  have "js_rem r 60 = r - of_int (60 * \<lfloor>r / 60\<rfloor>)"
    using r by (simp add: js_rem_nonneg)
  then have "\<lfloor>js_rem r 60\<rfloor> = \<lfloor>r\<rfloor> - 60 * \<lfloor>r / 60\<rfloor>"
    by (simp only: floor_diff_of_int)
  also have "\<dots> = \<lfloor>r\<rfloor> - 60 * (\<lfloor>r\<rfloor> div 60)"
    by (simp only: floor_div_1_60)
  also have "\<dots> = \<lfloor>r\<rfloor> mod 60"
    by (simp add: minus_mult_div_eq_mod)
  finally show ?thesis .
qed

lemma not_dashes_m: "xs @ ''m'' \<noteq> ''--''"
proof
  assume "xs @ ''m'' = ''--''"
  then have "last (xs @ ''m'') = last ''--''" by (rule arg_cong)
  then show False by simp
qed

lemma not_dashes_s: "xs @ ''s'' \<noteq> ''--''"
proof
  assume "xs @ ''s'' = ''--''"
  then have "last (xs @ ''s'') = last ''--''" by (rule arg_cong)
  then show False by simp
qed

lemma formatTime_finite_not_dashes:
  "r \<noteq> 0 \<Longrightarrow> r \<le> 86400 \<Longrightarrow> formatTime (Finite r) \<noteq> ''--''"
  using not_dashes_m [of "intToString \<lfloor>r / 3600\<rfloor> @ ''h '' @ intToString \<lfloor>js_rem r 3600 / 60\<rfloor>"]
    not_dashes_s [of "intToString \<lfloor>js_rem r 3600 / 60\<rfloor> @ ''m '' @ intToString \<lfloor>js_rem r 60\<rfloor>"]
    not_dashes_s [of "intToString \<lfloor>js_rem r 60\<rfloor>"]
  by (simp add: Let_def del: append_assoc append.simps add: append_assoc [symmetric])

text \<open>
  C8. \<open>formatTime\<close> returns the marker \<open>--\<close> exactly when the number of seconds is zero,
  is not finite or exceeds 86400. For every other positive finite value it prints, from
  floor divisions of the value, the hours and minutes when there is at least one hour,
  else the minutes and seconds when there is at least one minute, else the seconds.
\<close>

theorem formatTime_indeterminate:
  "(formatTime x = ''--'' \<longleftrightarrow>
      x = Finite 0 \<or> \<not> isFinite x \<or> (\<exists>r. x = Finite r \<and> r > 86400)) \<and>
   (0 < r \<and> r \<le> 86400 \<longrightarrow>
      formatTime (Finite r) =
        (if \<lfloor>r / 3600\<rfloor> > 0
         then intToString \<lfloor>r / 3600\<rfloor> @ ''h '' @ intToString (\<lfloor>r / 60\<rfloor> mod 60) @ ''m''
         else if \<lfloor>r / 60\<rfloor> mod 60 > 0
         then intToString (\<lfloor>r / 60\<rfloor> mod 60) @ ''m '' @ intToString (\<lfloor>r\<rfloor> mod 60) @ ''s''
         else intToString (\<lfloor>r\<rfloor> mod 60) @ ''s''))"
proof (intro conjI impI)
  show "formatTime x = ''--'' \<longleftrightarrow>
      x = Finite 0 \<or> \<not> isFinite x \<or> (\<exists>r. x = Finite r \<and> r > 86400)"
  proof (cases x)
    case (Finite q)
    show ?thesis
    proof (cases "q = 0 \<or> q > 86400")
      case True
      with Finite show ?thesis by auto
    next
      case False
      then have "formatTime (Finite q) \<noteq> ''--''"
        by (intro formatTime_finite_not_dashes) auto
      with False Finite show ?thesis by auto
    qed
  qed simp_all
next
  assume r: "0 < r \<and> r \<le> 86400"
  then have "0 \<le> r" by simp
  then show "formatTime (Finite r) =
        (if \<lfloor>r / 3600\<rfloor> > 0
         then intToString \<lfloor>r / 3600\<rfloor> @ ''h '' @ intToString (\<lfloor>r / 60\<rfloor> mod 60) @ ''m''
         else if \<lfloor>r / 60\<rfloor> mod 60 > 0
         then intToString (\<lfloor>r / 60\<rfloor> mod 60) @ ''m '' @ intToString (\<lfloor>r\<rfloor> mod 60) @ ''s''
         else intToString (\<lfloor>r\<rfloor> mod 60) @ ''s'')"
    using r by (simp add: minutes_eq secs_eq Let_def)
qed

theorem formatTime_indeterminate_witness:
  "(0::rat) < 3725 \<and> (3725::rat) \<le> 86400 \<and> formatTime (Finite 3725) = ''1h 2m'' \<and>
   formatTime (Finite 0) = ''--'' \<and> formatTime PosInfinity = ''--'' \<and>
   formatTime (Finite 86401) = ''--''"
proof -
  have rhs: "(if \<lfloor>(3725::rat) / 3600\<rfloor> > 0
         then intToString \<lfloor>(3725::rat) / 3600\<rfloor> @ ''h '' @ intToString (\<lfloor>(3725::rat) / 60\<rfloor> mod 60) @ ''m''
         else if \<lfloor>(3725::rat) / 60\<rfloor> mod 60 > 0
         then intToString (\<lfloor>(3725::rat) / 60\<rfloor> mod 60) @ ''m '' @ intToString (\<lfloor>3725::rat\<rfloor> mod 60) @ ''s''
         else intToString (\<lfloor>3725::rat\<rfloor> mod 60) @ ''s'') = ''1h 2m''"
    by code_simp
  have "formatTime (Finite 3725) = ''1h 2m''"
    using formatTime_indeterminate [of "Finite 0" 3725] unfolding rhs by simp
  moreover have "formatTime (Finite 86401) = ''--''"
    using formatTime_indeterminate [of "Finite 86401" 3725] by simp
  ultimately show ?thesis
    using formatTime_indeterminate [of "Finite 0" 3725] formatTime_indeterminate [of PosInfinity 3725] by simp
qed

section \<open>Properties of the download queue\<close>

lemma activeCount_Cons:
  "activeCount (i # xs) = (if isActive (status i) then Suc (activeCount xs) else activeCount xs)"
  by (simp add: activeCount_def)

lemma activeCount_append: "activeCount (xs @ ys) = activeCount xs + activeCount ys"
  by (simp add: activeCount_def)

lemma activeCount_filter: "activeCount (filter P xs) \<le> activeCount xs"
  by (induction xs) (simp_all add: activeCount_Cons)

lemma activeCount_promote:
  "hasPending xs \<Longrightarrow> activeCount (promoteOldestPending xs) = Suc (activeCount xs)"
  by (induction xs) (auto simp: hasPending_def activeCount_Cons)

lemma promoteOldestPending_first:
  "hasPending xs \<Longrightarrow>
   \<exists>pre i post. xs = pre @ i # post \<and> \<not> hasPending pre \<and> status i = PENDING \<and>
     promoteOldestPending xs = pre @ i\<lparr>status := DOWNLOADING\<rparr> # post"
proof (induction xs)
  case Nil
  then show ?case by (simp add: hasPending_def)
next
  case (Cons a xs)
  show ?case
  proof (cases "status a = PENDING")
    case True
    then have "a # xs = [] @ a # xs \<and> \<not> hasPending [] \<and> status a = PENDING \<and>
        promoteOldestPending (a # xs) = [] @ a\<lparr>status := DOWNLOADING\<rparr> # xs"
      by (simp add: hasPending_def)
    then show ?thesis by blast
  next
    case False
    with Cons.prems have "hasPending xs" by (simp add: hasPending_def)
    then obtain pre i post where
      "xs = pre @ i # post" "\<not> hasPending pre" "status i = PENDING"
      "promoteOldestPending xs = pre @ i\<lparr>status := DOWNLOADING\<rparr> # post"
      using Cons.IH by blast
    with False have "a # xs = (a # pre) @ i # post \<and> \<not> hasPending (a # pre) \<and> status i = PENDING \<and>
        promoteOldestPending (a # xs) = (a # pre) @ i\<lparr>status := DOWNLOADING\<rparr> # post"
      by (simp add: hasPending_def)
    then show ?thesis by blast
  qed
qed

lemma schedulerTick_bound: "activeCount (schedulerTick cap xs) \<le> max cap (activeCount xs)"
proof (induction cap xs rule: schedulerTick.induct)
  case (1 cap xs)
  show ?case
  proof (cases "activeCount xs < cap \<and> hasPending xs")
    case True
    then have "activeCount (schedulerTick cap (promoteOldestPending xs))
        \<le> max cap (activeCount (promoteOldestPending xs))"
      by (rule "1.IH")
    with True show ?thesis
      by (subst schedulerTick.simps) (simp add: activeCount_promote)
  next
    case False
    then have "schedulerTick cap xs = xs"
      by (subst schedulerTick.simps) auto
    then show ?thesis by simp
  qed
qed

lemma schedulerTick_full: "cap \<le> activeCount xs \<Longrightarrow> schedulerTick cap xs = xs"
  by (subst schedulerTick.simps) simp

lemma tick_bound:
  "activeCount (items (tick q)) \<le> max (maxConcurrentDownloads q) (activeCount (items q))"
  by (simp add: tick_def schedulerTick_bound)

lemma tick_cap [simp]: "maxConcurrentDownloads (tick q) = maxConcurrentDownloads q"
  by (simp add: tick_def)

lemma activeCount_updateItem:
  "findItem k xs = Some i \<Longrightarrow> (isActive (status (f i)) \<longrightarrow> isActive (status i)) \<Longrightarrow>
   activeCount (updateItem k f xs) \<le> activeCount xs"
  by (induction xs) (auto simp: findItem_def activeCount_Cons split: if_splits)

lemma transition_bound:
  assumes "transition k sources f q = Inr q'"
    and "\<And>i. status i \<in> set sources \<Longrightarrow> isActive (status (f i)) \<Longrightarrow> isActive (status i)"
  shows "activeCount (items q') \<le> max (maxConcurrentDownloads q) (activeCount (items q))
       \<and> maxConcurrentDownloads q' = maxConcurrentDownloads q"
proof -
  from assms(1) obtain i where i: "findItem k (items q) = Some i" "status i \<in> set sources"
    and q': "q' = tick (q\<lparr>items := updateItem k f (items q)\<rparr>)"
    by (auto simp: transition_def split: option.splits if_splits)
  have "activeCount (updateItem k f (items q)) \<le> activeCount (items q)"
    using i assms(2) by (intro activeCount_updateItem) auto
  moreover have "activeCount (items q')
      \<le> max (maxConcurrentDownloads q) (activeCount (updateItem k f (items q)))"
    unfolding q' using tick_bound [of "q\<lparr>items := updateItem k f (items q)\<rparr>"] by simp
  ultimately show ?thesis
    unfolding q' by simp
qed

lemma step_bound:
  assumes "step c q = Inr q'" and "\<And>n. c \<noteq> SetMaxConcurrentDownloads n"
  shows "activeCount (items q') \<le> max (maxConcurrentDownloads q) (activeCount (items q))
       \<and> maxConcurrentDownloads q' = maxConcurrentDownloads q"
proof (cases c)
  case (Enqueue f)
  with assms(1) obtain it where
    "q' = tick (q\<lparr>items := items q @ [it], nextId := Suc (nextId q)\<rparr>)" "status it = PENDING"
    by (auto simp: enqueue_def split: if_splits)
  then show ?thesis
    using tick_bound [of "q\<lparr>items := items q @ [it], nextId := Suc (nextId q)\<rparr>"]
    by (simp add: activeCount_append activeCount_Cons activeCount_def)
next
  case (RemoveFromQueue k)
  with assms(1) have q': "q' = tick (q\<lparr>items := filter (\<lambda>i. itemId i \<noteq> k) (items q)\<rparr>)"
    by auto
  show ?thesis
    unfolding q'
    using tick_bound [of "q\<lparr>items := filter (\<lambda>i. itemId i \<noteq> k) (items q)\<rparr>"]
      activeCount_filter [of "\<lambda>i. itemId i \<noteq> k" "items q"]
    by simp
next
  case ClearCompleted
  with assms(1) show ?thesis
    using activeCount_filter [of "\<lambda>i. status i \<noteq> COMPLETED" "items q"] by auto
next
  case ClearFailed
  with assms(1) show ?thesis
    using activeCount_filter [of "\<lambda>i. status i \<noteq> FAILED \<and> status i \<noteq> CANCELLED" "items q"] by auto
next
  case (SetMaxConcurrentDownloads n)
  with assms(2) show ?thesis by blast
qed (use assms(1) in \<open>auto intro!: transition_bound\<close>)

lemma applyCommand_bound:
  "(\<And>n. c \<noteq> SetMaxConcurrentDownloads n) \<Longrightarrow>
   activeCount (items (applyCommand c q)) \<le> max (maxConcurrentDownloads q) (activeCount (items q))
   \<and> maxConcurrentDownloads (applyCommand c q) = maxConcurrentDownloads q"
  using step_bound [of c q] by (cases "step c q") (auto simp: applyCommand_def)

lemma peakCap_ge: "cap \<le> peakCap cap cs"
proof (induction cs arbitrary: cap)
  case Nil
  then show ?case by simp
next
  case (Cons c cs)
  then show ?case by (cases c) simp_all
qed

lemma run_bound:
  "activeCount (items (run cs q))
     \<le> max (peakCap (maxConcurrentDownloads q) cs) (activeCount (items q))"
proof (induction cs arbitrary: q)
  case Nil
  then show ?case by (simp add: run_def)
next
  case (Cons c cs)
  have run_Cons: "run (c # cs) q = run cs (applyCommand c q)"
    by (simp add: run_def)
  show ?case
  proof (cases "\<exists>n. c = SetMaxConcurrentDownloads n")
    case True
    then obtain n where c: "c = SetMaxConcurrentDownloads n" by blast
    show ?thesis
    proof (cases "1 \<le> n \<and> n \<le> 5")
      case True
      with c have q': "applyCommand c q = q\<lparr>maxConcurrentDownloads := n\<rparr>"
        by (simp add: applyCommand_def)
      have "activeCount (items (run cs (q\<lparr>maxConcurrentDownloads := n\<rparr>)))
          \<le> max (peakCap n cs) (activeCount (items q))"
        using Cons.IH [of "q\<lparr>maxConcurrentDownloads := n\<rparr>"] by simp
      with True c show ?thesis
        unfolding run_Cons q' by simp
    next
      case False
      with c have q': "applyCommand c q = q"
        by (auto simp: applyCommand_def)
      from False c show ?thesis
        unfolding run_Cons q' using Cons.IH [of q] by auto
    qed
  next
    case False
    then have b: "activeCount (items (applyCommand c q))
          \<le> max (maxConcurrentDownloads q) (activeCount (items q))"
      and m: "maxConcurrentDownloads (applyCommand c q) = maxConcurrentDownloads q"
      using applyCommand_bound [of c q] by blast+
    have pk: "peakCap (maxConcurrentDownloads q) (c # cs) = peakCap (maxConcurrentDownloads q) cs"
      using False by (cases c) simp_all
    have "activeCount (items (run cs (applyCommand c q)))
        \<le> max (peakCap (maxConcurrentDownloads q) cs) (activeCount (items (applyCommand c q)))"
      using Cons.IH [of "applyCommand c q"] m by simp
    with b peakCap_ge [of "maxConcurrentDownloads q" cs] show ?thesis
      unfolding run_Cons pk by simp
  qed
qed

lemma applyCommand_capChange_items:
  "isCapChange c \<Longrightarrow> items (applyCommand c q) = items q"
  by (cases c) (simp_all add: applyCommand_def)

lemma applyCommand_other_bound:
  "\<not> isCapChange c \<Longrightarrow>
   activeCount (items (applyCommand c q)) \<le> max (maxConcurrentDownloads q) (activeCount (items q))
   \<and> maxConcurrentDownloads (applyCommand c q) = maxConcurrentDownloads q"
  by (rule applyCommand_bound) auto

lemma applyCommand_within_cap:
  assumes "activeCount (items q) \<le> maxConcurrentDownloads q" and "\<not> lowersBelowActive c q"
  shows "activeCount (items (applyCommand c q)) \<le> maxConcurrentDownloads (applyCommand c q)"
proof (cases "isCapChange c")
  case True
  then obtain n where c: "c = SetMaxConcurrentDownloads n"
    by (cases c) simp_all
  show ?thesis
  proof (cases "1 \<le> n \<and> n \<le> 5")
    case True
    with c assms(2) have "activeCount (items q) \<le> n"
      by simp
    with True c show ?thesis
      by (simp add: applyCommand_def)
  next
    case False
    with c have "applyCommand c q = q"
      by (auto simp: applyCommand_def)
    with assms(1) show ?thesis by simp
  qed
next
  case False
  with assms(1) applyCommand_other_bound [of c q] show ?thesis
    by simp
qed

lemma run_within_cap:
  "activeCount (items q) \<le> maxConcurrentDownloads q \<Longrightarrow> neverLoweredBelowActive cs q \<Longrightarrow>
   activeCount (items (run cs q)) \<le> maxConcurrentDownloads (run cs q)"
proof (induction cs arbitrary: q)
  case Nil
  then show ?case by (simp add: run_def)
next
  case (Cons c cs)
  have "activeCount (items (applyCommand c q)) \<le> maxConcurrentDownloads (applyCommand c q)"
    using Cons.prems by (intro applyCommand_within_cap) simp_all
  moreover have "neverLoweredBelowActive cs (applyCommand c q)"
    using Cons.prems by simp
  ultimately have "activeCount (items (run cs (applyCommand c q)))
      \<le> maxConcurrentDownloads (run cs (applyCommand c q))"
    by (rule Cons.IH)
  then show ?case by (simp add: run_def)
qed

text \<open>
  C1, as amended. Once the number of ACTIVE items is at most the configured cap, it stays
  so through every run in which no step sets the cap below the number of transfers
  active at that moment; in particular through every such run from the empty queue. A
  step other than a change of the cap never raises the active count above the larger of
  the cap and the count before it, so a count left above a lowered cap does not grow; a
  change of the cap leaves the items as they are; and the count never exceeds the largest
  cap in force during the run. A scheduler tick changes nothing when the active count has
  reached the cap, and never raises the count above the larger of the cap and the count
  it started from.
\<close>

theorem activeCount_within_cap_unless_lowered:
  "(activeCount (items q) \<le> maxConcurrentDownloads q \<and> neverLoweredBelowActive cs q \<longrightarrow>
      activeCount (items (run cs q)) \<le> maxConcurrentDownloads (run cs q)) \<and>
   (neverLoweredBelowActive cs (emptyQueue cap) \<longrightarrow>
      activeCount (items (run cs (emptyQueue cap)))
        \<le> maxConcurrentDownloads (run cs (emptyQueue cap))) \<and>
   (\<not> isCapChange c \<longrightarrow>
      activeCount (items (applyCommand c q))
        \<le> max (maxConcurrentDownloads q) (activeCount (items q)) \<and>
      maxConcurrentDownloads (applyCommand c q) = maxConcurrentDownloads q) \<and>
   (isCapChange c \<longrightarrow> items (applyCommand c q) = items q) \<and>
   activeCount (items (run cs (emptyQueue cap))) \<le> peakCap cap cs \<and>
   (k \<le> activeCount xs \<longrightarrow> schedulerTick k xs = xs) \<and>
   activeCount (schedulerTick k xs) \<le> max k (activeCount xs)"
proof -
  have start: "activeCount (items (emptyQueue cap)) \<le> maxConcurrentDownloads (emptyQueue cap)"
    by (simp add: emptyQueue_def activeCount_def)
  have peak: "activeCount (items (run cs (emptyQueue cap))) \<le> peakCap cap cs"
    using run_bound [of cs "emptyQueue cap"] by (simp add: emptyQueue_def activeCount_def)
  show ?thesis
    using run_within_cap [of q cs] run_within_cap [OF start, of cs]
      applyCommand_other_bound [of c q] applyCommand_capChange_items [of c q] peak
      schedulerTick_bound [of k xs] schedulerTick_full [of k xs]
    by blast
qed

theorem activeCount_within_cap_unless_lowered_witness:
  "neverLoweredBelowActive
     [SetMaxConcurrentDownloads 1, Enqueue 101, Enqueue 102, Enqueue 103] (emptyQueue 3) \<and>
   activeCount (items (run [SetMaxConcurrentDownloads 1, Enqueue 101, Enqueue 102, Enqueue 103]
                         (emptyQueue 3)))
     \<le> maxConcurrentDownloads (run [SetMaxConcurrentDownloads 1, Enqueue 101, Enqueue 102, Enqueue 103]
                                 (emptyQueue 3)) \<and>
   maxConcurrentDownloads (run [SetMaxConcurrentDownloads 1, Enqueue 101, Enqueue 102, Enqueue 103]
                             (emptyQueue 3)) = 1 \<and>
   2 \<le> activeCount (items (run [Enqueue 101, Enqueue 102, Enqueue 103] (emptyQueue 2))) \<and>
   schedulerTick 2 (items (run [Enqueue 101, Enqueue 102, Enqueue 103] (emptyQueue 2)))
     = items (run [Enqueue 101, Enqueue 102, Enqueue 103] (emptyQueue 2))"
proof -
  have h1: "neverLoweredBelowActive
      [SetMaxConcurrentDownloads 1, Enqueue 101, Enqueue 102, Enqueue 103] (emptyQueue 3)"
    by code_simp
  have h2: "maxConcurrentDownloads (run [SetMaxConcurrentDownloads 1, Enqueue 101, Enqueue 102, Enqueue 103]
      (emptyQueue 3)) = 1"
    by code_simp
  have h3: "2 \<le> activeCount (items (run [Enqueue 101, Enqueue 102, Enqueue 103] (emptyQueue 2)))"
    by code_simp
  show ?thesis
    using h1 h2 h3
      activeCount_within_cap_unless_lowered
        [of "emptyQueue 3" "[SetMaxConcurrentDownloads 1, Enqueue 101, Enqueue 102, Enqueue 103]"
          3 "Enqueue 101" 2 "items (run [Enqueue 101, Enqueue 102, Enqueue 103] (emptyQueue 2))"]
    by blast
qed

text \<open>
  The cap can be lowered while transfers are active, and they are not aborted: with the
  cap 2 and two items downloading, setting the cap to 1 leaves two active items.
\<close>

theorem activeCount_exceeds_lowered_cap:
  "maxConcurrentDownloads (run [Enqueue 101, Enqueue 102, SetMaxConcurrentDownloads 1] (emptyQueue 2)) = 1 \<and>
   activeCount (items (run [Enqueue 101, Enqueue 102, SetMaxConcurrentDownloads 1] (emptyQueue 2))) = 2"
  by code_simp

end
